theory Spec2Isabelle
  imports Complex_Main
begin

section \<open>Run-time values of the RUM tool handlers\<close>

text \<open>
  The handlers of \<^verbatim>\<open>src/tools/rum/tool.ts\<close> work on event attributes that the
  Datadog client deserialises from JSON and types as \<^verbatim>\<open>{ [key: string]: any }\<close>. A value
  is therefore any JSON value, or \<^verbatim>\<open>undefined\<close> (what reading a missing member gives).

  Numbers are JavaScript doubles; they are idealised as reals here, so rounding, the
  infinities, NaN and the sign of zero are outside the model. Strings are lists of code
  units. An object is the list of its own members (the first entry of a key is the
  member).
\<close>

datatype jsval =
    JUndefined
  | JNull
  | JBool bool
  | JNum real
  | JStr string
  | JArr "jsval list"
  | JObj "(string \<times> jsval) list"

datatype js_error =
    TypeError
  | Error string

text \<open>\<^verbatim>\<open>ToBoolean\<close>, as used by \<^verbatim>\<open>!x\<close>, \<^verbatim>\<open>x ? a : b\<close> and \<^verbatim>\<open>if (x)\<close>.\<close>

fun truthy :: "jsval \<Rightarrow> bool" where
  "truthy JUndefined = False"
| "truthy JNull = False"
| "truthy (JBool b) = b"
| "truthy (JNum n) = (n \<noteq> 0)"
| "truthy (JStr s) = (s \<noteq> [])"
| "truthy (JArr xs) = True"
| "truthy (JObj kvs) = True"

fun is_nullish :: "jsval \<Rightarrow> bool" where
  "is_nullish JUndefined = True"
| "is_nullish JNull = True"
| "is_nullish v = False"

subsection \<open>Member access \<^verbatim>\<open>v[key]\<close>\<close>

text \<open>
  Reading a member of \<^verbatim>\<open>null\<close> or \<^verbatim>\<open>undefined\<close> throws a \<^verbatim>\<open>TypeError\<close>. Every other
  value can be indexed: an object gives its own member or \<^verbatim>\<open>undefined\<close>; a string and
  an array have the own members \<^verbatim>\<open>length\<close> and the canonical indices below their
  length; numbers and booleans have no own members. Members that the built-in prototypes
  contribute (\<^verbatim>\<open>toString\<close>, \<^verbatim>\<open>constructor\<close>, \<^verbatim>\<open>__proto__\<close>, ...) are functions and
  prototype objects, never JSON data; the value type has none of them, and a key that
  names one reads \<^verbatim>\<open>undefined\<close> here, while the code reads the inherited member. On such
  keys \<open>getValueByPath\<close>, \<open>reduce_path\<close> and \<open>groupValue\<close> below differ from the code;
  the statements of the claims do not rest on what these keys read.
\<close>

fun own_lookup :: "(string \<times> jsval) list \<Rightarrow> string \<Rightarrow> jsval" where
  "own_lookup [] key = JUndefined"
| "own_lookup ((k, v) # kvs) key = (if k = key then v else own_lookup kvs key)"

definition is_digit :: "char \<Rightarrow> bool" where
  "is_digit c = (48 \<le> (of_char c :: nat) \<and> (of_char c :: nat) \<le> 57)"

text \<open>A key is an index when it is the decimal numeral of a number, without leading zero.\<close>

definition index_of_key :: "string \<Rightarrow> nat option" where
  "index_of_key key =
     (case key of
        [] \<Rightarrow> None
      | c # cs \<Rightarrow>
          if list_all is_digit key \<and> (if c = CHR ''0'' then cs = [] else True)
          then Some (foldl (\<lambda>a d. 10 * a + (of_char d - 48)) 0 key)
          else None)"

fun get_member :: "jsval \<Rightarrow> string \<Rightarrow> jsval" where
  "get_member (JObj kvs) key = own_lookup kvs key"
| "get_member (JStr s) key =
     (if key = ''length'' then JNum (real (length s))
      else case index_of_key key of
             Some i \<Rightarrow> if i < length s then JStr [s ! i] else JUndefined
           | None \<Rightarrow> JUndefined)"
| "get_member (JArr xs) key =
     (if key = ''length'' then JNum (real (length xs))
      else case index_of_key key of
             Some i \<Rightarrow> if i < length xs then xs ! i else JUndefined
           | None \<Rightarrow> JUndefined)"
| "get_member v key = JUndefined"

definition get_prop :: "jsval \<Rightarrow> string \<Rightarrow> js_error + jsval" where
  "get_prop v key = (if is_nullish v then Inl TypeError else Inr (get_member v key))"

section \<open>The path resolver \<^verbatim>\<open>getValueByPath\<close>\<close>

record resolution =
  "value" :: jsval
  found :: bool

text \<open>
  \<^verbatim>\<open>getValueByPath(obj, path, index = 0)\<close>, lines 280 to 301. The parameter is typed
  \<^verbatim>\<open>Record<string, unknown>\<close>, but the recursive call casts whatever the member held, so
  \<open>obj\<close> ranges over all values. \<^verbatim>\<open>typedObj[key]\<close> is evaluated before it is compared
  with \<^verbatim>\<open>undefined\<close>, and it throws when \<open>obj\<close> is \<^verbatim>\<open>null\<close>.
\<close>

function getValueByPath :: "jsval \<Rightarrow> string list \<Rightarrow> nat \<Rightarrow> js_error + resolution" where
  "getValueByPath obj path index =
     (if index \<ge> length path then Inr \<lparr>value = obj, found = True\<rparr>
      else
        let key = path ! index in
        case get_prop obj key of
          Inl e \<Rightarrow> Inl e
        | Inr member \<Rightarrow>
            if member = JUndefined then Inr \<lparr>value = JNull, found = False\<rparr>
            else getValueByPath member path (index + 1))"
  by pat_completeness auto
termination
  by (relation "measure (\<lambda>(obj, path, index). length path - index)") auto

declare getValueByPath.simps [simp del]

section \<open>The reducer of \<^verbatim>\<open>get_rum_page_performance\<close>\<close>

text \<open>
  Lines 206 to 209:
  \<^verbatim>\<open>metricNameParts.reduce((acc, part) => (acc ? acc[part] : undefined), attributes)\<close>.
  The fold goes through every part; once the accumulator is falsy it stays
  \<^verbatim>\<open>undefined\<close>.
\<close>

fun reduce_path :: "jsval \<Rightarrow> string list \<Rightarrow> js_error + jsval" where
  "reduce_path acc [] = Inr acc"
| "reduce_path acc (part # parts) =
     (case (if truthy acc then get_prop acc part else Inr JUndefined) of
        Inl e \<Rightarrow> Inl e
      | Inr acc' \<Rightarrow> reduce_path acc' parts)"

text \<open>
  The same walk, read from the segment the resolver stands at (\<open>drop index path\<close>);
  a proof device, related to \<open>getValueByPath\<close> by \<open>getValueByPath_drop\<close>.
\<close>

fun resolve_from :: "jsval \<Rightarrow> string list \<Rightarrow> js_error + resolution" where
  "resolve_from obj [] = Inr \<lparr>value = obj, found = True\<rparr>"
| "resolve_from obj (key # keys) =
     (case get_prop obj key of
        Inl e \<Rightarrow> Inl e
      | Inr member \<Rightarrow>
          if member = JUndefined then Inr \<lparr>value = JNull, found = False\<rparr>
          else resolve_from member keys)"

section \<open>Built-ins the handlers call\<close>

text \<open>\<^verbatim>\<open>s.split('.')\<close>: the segments between the dots; the empty string has one segment.\<close>

fun split_dot :: "string \<Rightarrow> string list" where
  "split_dot [] = [[]]"
| "split_dot (c # cs) =
     (if c = CHR ''.'' then [] # split_dot cs
      else case split_dot cs of
             [] \<Rightarrow> [[c]]
           | segment # segments \<Rightarrow> (c # segment) # segments)"

text \<open>
  \<^verbatim>\<open>String(v)\<close>. The decimal form of a number is the parameter \<open>fmt\<close>. An array joins
  its elements with commas, \<^verbatim>\<open>null\<close> and \<^verbatim>\<open>undefined\<close> giving the empty string. An
  object gives \<^verbatim>\<open>[object Object]\<close>; when it has an own member \<^verbatim>\<open>toString\<close> (JSON data,
  so not callable) the conversion to a primitive fails with a \<^verbatim>\<open>TypeError\<close>.
\<close>

fun js_String :: "(real \<Rightarrow> string) \<Rightarrow> jsval \<Rightarrow> js_error + string"
  and js_join :: "(real \<Rightarrow> string) \<Rightarrow> jsval list \<Rightarrow> js_error + string" where
  "js_String fmt JUndefined = Inr ''undefined''"
| "js_String fmt JNull = Inr ''null''"
| "js_String fmt (JBool b) = Inr (if b then ''true'' else ''false'')"
| "js_String fmt (JNum n) = Inr (fmt n)"
| "js_String fmt (JStr s) = Inr s"
| "js_String fmt (JArr xs) = js_join fmt xs"
| "js_String fmt (JObj kvs) =
     (if own_lookup kvs ''toString'' = JUndefined then Inr ''[object Object]''
      else Inl TypeError)"
| "js_join fmt [] = Inr []"
| "js_join fmt (x # xs) =
     (case (if is_nullish x then Inr [] else js_String fmt x) of
        Inl e \<Rightarrow> Inl e
      | Inr s \<Rightarrow>
          if xs = [] then Inr s
          else (case js_join fmt xs of
                  Inl e \<Rightarrow> Inl e
                | Inr rest \<Rightarrow> Inr (s @ '','' @ rest)))"

subsection \<open>\<^verbatim>\<open>Map\<close> and \<^verbatim>\<open>Set\<close>\<close>

text \<open>
  A \<^verbatim>\<open>Map\<close> is the list of its entries in insertion order: \<^verbatim>\<open>has\<close>, \<^verbatim>\<open>get\<close> (which is
  \<open>map_of\<close>) and \<^verbatim>\<open>set\<close>, which overwrites an entry where it stands or appends one.
\<close>

definition map_has :: "('k \<times> 'v) list \<Rightarrow> 'k \<Rightarrow> bool" where
  "map_has m k = (case map_of m k of None \<Rightarrow> False | Some v \<Rightarrow> True)"

fun map_set :: "('k \<times> 'v) list \<Rightarrow> 'k \<Rightarrow> 'v \<Rightarrow> ('k \<times> 'v) list" where
  "map_set [] k v = [(k, v)]"
| "map_set ((k', v') # m) k v = (if k' = k then (k, v) # m else (k', v') # map_set m k v)"

text \<open>
  A \<^verbatim>\<open>Set\<close> is the list of its members in insertion order. \<^verbatim>\<open>add\<close> compares with
  SameValueZero: primitives by value, objects and arrays by identity. The only values
  added are session ids read from the event at hand, and every event is deserialised on
  its own, so an object or array added is never one the set already holds.
\<close>

fun is_object :: "jsval \<Rightarrow> bool" where
  "is_object (JObj kvs) = True"
| "is_object (JArr xs) = True"
| "is_object v = False"

definition same_value_zero :: "jsval \<Rightarrow> jsval \<Rightarrow> bool" where
  "same_value_zero x y = (if is_object x then False else x = y)"

definition set_add :: "jsval list \<Rightarrow> jsval \<Rightarrow> jsval list" where
  "set_add s x = (if list_ex (same_value_zero x) s then s else s @ [x])"

subsection \<open>A plain object used as a dictionary\<close>

text \<open>
  \<^verbatim>\<open>get_rum_page_performance\<close> keeps its series and its results in plain objects
  (\<^verbatim>\<open>{} as Record<string, ...>\<close>) indexed by caller-supplied names. For every name but
  one, \<^verbatim>\<open>acc[name] = v\<close> creates or overwrites an own member. The name \<^verbatim>\<open>__proto__\<close> is
  the accessor that \<^verbatim>\<open>Object.prototype\<close> defines: assigning an object (an array is one)
  to it replaces the prototype of \<^verbatim>\<open>acc\<close> and creates no own member, and reading it gives
  that prototype back. \<^verbatim>\<open>Object.entries\<close> lists the own members only.
  Reading a name that is no own member is \<open>None\<close> here (in the handler every name read
  has been assigned before). The members are kept in insertion order; JavaScript lists
  integer-like names first, and every statement below reads the members by name.
\<close>

record 'v plain_object =
  members :: "(string \<times> 'v) list"
  prototype :: "'v option"

definition empty_object :: "'v plain_object" where
  "empty_object = \<lparr>members = [], prototype = None\<rparr>"

definition assign :: "'v plain_object \<Rightarrow> string \<Rightarrow> 'v \<Rightarrow> 'v plain_object" where
  "assign obj name v =
     (if name = ''__proto__'' then obj\<lparr>prototype := Some v\<rparr>
      else obj\<lparr>members := map_set (members obj) name v\<rparr>)"

definition read :: "'v plain_object \<Rightarrow> string \<Rightarrow> 'v option" where
  "read obj name = (if name = ''__proto__'' then prototype obj else map_of (members obj) name)"

definition entries :: "'v plain_object \<Rightarrow> (string \<times> 'v) list" where
  "entries obj = members obj"

section \<open>Events and the external RUM interface\<close>

text \<open>
  A \<^verbatim>\<open>RUMEvent\<close> of the Datadog client has an optional \<^verbatim>\<open>attributes\<close> object, which has
  an optional \<^verbatim>\<open>attributes\<close> dictionary; the handlers read nothing else of an event.
\<close>

record RUMEventAttributes =
  attributes :: "(string \<times> jsval) list option"

record RUMEvent =
  attributes :: "RUMEventAttributes option"

text \<open>\<^verbatim>\<open>event.attributes?.attributes\<close>; an object is truthy, so \<^verbatim>\<open>!\<close> of it holds only
  when it is absent.\<close>

definition event_attributes :: "RUMEvent \<Rightarrow> (string \<times> jsval) list option" where
  "event_attributes event =
     (case RUMEvent.attributes event of
        None \<Rightarrow> None
      | Some a \<Rightarrow> RUMEventAttributes.attributes a)"

text \<open>
  The argument of \<^verbatim>\<open>listRUMEvents\<close>. A \<^verbatim>\<open>Date\<close> is its number of milliseconds; an
  omitted or \<^verbatim>\<open>undefined\<close> member is \<open>None\<close>.
\<close>

record ListRUMEventsRequest =
  filterQuery :: "string option"
  filterFrom :: "int option"
  filterTo :: "int option"
  sort_by :: string
  pageLimit :: int

record 'a api_response =
  data :: "'a list option"

text \<open>
  The client \<^verbatim>\<open>apiInstance\<close>: what each awaited call gives, \<open>Inl\<close> when the promise is
  rejected. The handlers do not catch, so a rejection is the handler's.
\<close>

record RUMApi =
  getRUMApplications :: "js_error + jsval api_response"
  listRUMEvents :: "ListRUMEventsRequest \<Rightarrow> js_error + RUMEvent api_response"

text \<open>
  A handler returns one text block: a label followed by \<^verbatim>\<open>JSON.stringify\<close> of a
  payload. The serialisation is not unfolded; the block is the label and the payload.
\<close>

record summary =
  avg :: real
  min_val :: real
  max_val :: real
  count :: nat

datatype payload =
    Applications "jsval list"
  | Events "RUMEvent list"
  | SessionCounts "(string \<times> nat) list"
  | PerformanceResults "(string \<times> summary) list"

record text_content =
  label :: string
  json :: payload

section \<open>\<^verbatim>\<open>get_rum_applications\<close>, \<^verbatim>\<open>get_rum_events\<close>, \<^verbatim>\<open>get_rum_page_waterfall\<close>\<close>

text \<open>
  The handlers take the arguments as the schema's \<^verbatim>\<open>parse\<close> returns them; the schemas
  are not part of this file of the repository.
\<close>

definition get_rum_applications :: "RUMApi \<Rightarrow> js_error + text_content" where
  "get_rum_applications apiInstance =
     (case getRUMApplications apiInstance of
        Inl e \<Rightarrow> Inl e
      | Inr response \<Rightarrow>
          (case data response of
             None \<Rightarrow> Inl (Error ''No RUM applications data returned'')
           | Some d \<Rightarrow> Inr \<lparr>label = ''RUM applications: '', json = Applications d\<rparr>))"

definition events_request :: "string \<Rightarrow> int \<Rightarrow> int \<Rightarrow> int \<Rightarrow> ListRUMEventsRequest" where
  "events_request query from to limit =
     \<lparr>filterQuery = Some query, filterFrom = Some (from * 1000), filterTo = Some (to * 1000),
      sort_by = ''timestamp'', pageLimit = limit\<rparr>"

definition get_rum_events ::
  "RUMApi \<Rightarrow> string \<Rightarrow> int \<Rightarrow> int \<Rightarrow> int \<Rightarrow> js_error + text_content" where
  "get_rum_events apiInstance query from to limit =
     (case listRUMEvents apiInstance (events_request query from to limit) of
        Inl e \<Rightarrow> Inl e
      | Inr response \<Rightarrow>
          (case data response of
             None \<Rightarrow> Inl (Error ''No RUM events data returned'')
           | Some d \<Rightarrow> Inr \<lparr>label = ''RUM events data: '', json = Events d\<rparr>))"

definition waterfall_request :: "string \<Rightarrow> string \<Rightarrow> ListRUMEventsRequest" where
  "waterfall_request applicationName sessionId =
     \<lparr>filterQuery = Some (''@application.name:'' @ applicationName @ '' @session.id:'' @ sessionId),
      filterFrom = None, filterTo = None, sort_by = ''timestamp'', pageLimit = 2000\<rparr>"

definition get_rum_page_waterfall ::
  "RUMApi \<Rightarrow> string \<Rightarrow> string \<Rightarrow> js_error + text_content" where
  "get_rum_page_waterfall apiInstance applicationName sessionId =
     (case listRUMEvents apiInstance (waterfall_request applicationName sessionId) of
        Inl e \<Rightarrow> Inl e
      | Inr response \<Rightarrow>
          (case data response of
             None \<Rightarrow> Inl (Error ''No RUM events data returned'')
           | Some d \<Rightarrow> Inr \<lparr>label = ''Waterfall data: '', json = Events d\<rparr>))"

section \<open>\<^verbatim>\<open>get_rum_grouped_event_count\<close>\<close>

text \<open>Line 106: the wildcard is sent as no filter at all.\<close>

definition grouped_event_count_request :: "string \<Rightarrow> int \<Rightarrow> int \<Rightarrow> ListRUMEventsRequest" where
  "grouped_event_count_request query from to =
     \<lparr>filterQuery = (if query \<noteq> ''*'' then Some query else None),
      filterFrom = Some (from * 1000), filterTo = Some (to * 1000),
      sort_by = ''timestamp'', pageLimit = 2000\<rparr>"

text \<open>
  Lines 126 to 134: the group of an event with attributes. \<^verbatim>\<open>groupPath.map(String)\<close> is
  the identity on the segments.
\<close>

definition groupValue :: "(real \<Rightarrow> string) \<Rightarrow> string \<Rightarrow> (string \<times> jsval) list \<Rightarrow> js_error + string" where
  "groupValue fmt groupBy attrs =
     (case getValueByPath (JObj attrs) (split_dot groupBy) 0 of
        Inl e \<Rightarrow> Inl e
      | Inr result \<Rightarrow> if found result then js_String fmt (value result) else Inr ''unknown'')"

text \<open>Line 142: \<^verbatim>\<open>event.attributes.attributes.session?.id\<close>.\<close>

definition session_id :: "(string \<times> jsval) list \<Rightarrow> jsval" where
  "session_id attrs =
     (let session = own_lookup attrs ''session''
      in if is_nullish session then JUndefined else get_member session ''id'')"

text \<open>The body of the loop of lines 120 to 145, on the map \<^verbatim>\<open>sessions\<close>.\<close>

definition count_event ::
  "(real \<Rightarrow> string) \<Rightarrow> string \<Rightarrow> (string \<times> jsval list) list \<Rightarrow> RUMEvent
    \<Rightarrow> js_error + (string \<times> jsval list) list" where
  "count_event fmt groupBy sessions event =
     (case event_attributes event of
        None \<Rightarrow> Inr sessions
      | Some attrs \<Rightarrow>
          (case groupValue fmt groupBy attrs of
             Inl e \<Rightarrow> Inl e
           | Inr g \<Rightarrow>
               let sessions1 = (if \<not> map_has sessions g then map_set sessions g [] else sessions)
               in if truthy (session_id attrs)
                  then (case map_of sessions1 g of
                          None \<Rightarrow> Inr sessions1
                        | Some s \<Rightarrow> Inr (map_set sessions1 g (set_add s (session_id attrs))))
                  else Inr sessions1))"

fun count_events ::
  "(real \<Rightarrow> string) \<Rightarrow> string \<Rightarrow> (string \<times> jsval list) list \<Rightarrow> RUMEvent list
    \<Rightarrow> js_error + (string \<times> jsval list) list" where
  "count_events fmt groupBy sessions [] = Inr sessions"
| "count_events fmt groupBy sessions (event # events) =
     (case count_event fmt groupBy sessions event of
        Inl e \<Rightarrow> Inl e
      | Inr sessions' \<Rightarrow> count_events fmt groupBy sessions' events)"

text \<open>
  Lines 118 to 150: from the events to \<^verbatim>\<open>sessionCounts\<close>, one count per key of the map
  (\<^verbatim>\<open>Object.fromEntries\<close>), listed here in the order of the map.
\<close>

definition session_counts ::
  "(real \<Rightarrow> string) \<Rightarrow> string \<Rightarrow> RUMEvent list \<Rightarrow> js_error + (string \<times> nat) list" where
  "session_counts fmt groupBy events =
     (case count_events fmt groupBy [] events of
        Inl e \<Rightarrow> Inl e
      | Inr sessions \<Rightarrow> Inr (map (\<lambda>(key, s). (key, length s)) sessions))"

definition get_rum_grouped_event_count ::
  "(real \<Rightarrow> string) \<Rightarrow> RUMApi \<Rightarrow> string \<Rightarrow> int \<Rightarrow> int \<Rightarrow> string \<Rightarrow> js_error + text_content" where
  "get_rum_grouped_event_count fmt apiInstance query from to groupBy =
     (case listRUMEvents apiInstance (grouped_event_count_request query from to) of
        Inl e \<Rightarrow> Inl e
      | Inr response \<Rightarrow>
          (case data response of
             None \<Rightarrow> Inl (Error ''No RUM events data returned'')
           | Some events \<Rightarrow>
               (case session_counts fmt groupBy events of
                  Inl e \<Rightarrow> Inl e
                | Inr sessionCounts \<Rightarrow>
                    Inr \<lparr>label = ''Session counts (grouped by '' @ groupBy @ ''): '',
                         json = SessionCounts sessionCounts\<rparr>)))"

section \<open>\<^verbatim>\<open>get_rum_page_performance\<close>\<close>

text \<open>Line 167: the view filter, with the caller's query unless it is the wildcard.\<close>

definition page_performance_request :: "string \<Rightarrow> int \<Rightarrow> int \<Rightarrow> ListRUMEventsRequest" where
  "page_performance_request query from to =
     \<lparr>filterQuery = Some (if query \<noteq> ''*'' then ''@type:view '' @ query else ''@type:view''),
      filterFrom = Some (from * 1000), filterTo = Some (to * 1000),
      sort_by = ''timestamp'', pageLimit = 2000\<rparr>"

text \<open>Lines 182 to 188: one empty series per requested name.\<close>

definition init_metrics :: "string list \<Rightarrow> real list plain_object" where
  "init_metrics metricNames = foldl (\<lambda>acc name. assign acc name []) empty_object metricNames"

text \<open>Line 213: \<^verbatim>\<open>metrics[metricName].push(value)\<close>; it throws when the member is missing.\<close>

definition push_metric ::
  "real list plain_object \<Rightarrow> string \<Rightarrow> real \<Rightarrow> js_error + real list plain_object" where
  "push_metric metrics metricName v =
     (case read metrics metricName of
        None \<Rightarrow> Inl TypeError
      | Some series \<Rightarrow> Inr (assign metrics metricName (series @ [v])))"

text \<open>
  Lines 196 to 215, the inner loop over the requested names for one event with
  attributes. The test of line 202 cannot hold there (line 191 has passed).
\<close>

fun collect_metrics ::
  "(string \<times> jsval) list \<Rightarrow> real list plain_object \<Rightarrow> string list
    \<Rightarrow> js_error + real list plain_object" where
  "collect_metrics attrs metrics [] = Inr metrics"
| "collect_metrics attrs metrics (metricName # rest) =
     (case reduce_path (JObj attrs) (split_dot metricName) of
        Inl e \<Rightarrow> Inl e
      | Inr v \<Rightarrow>
          (case (case v of JNum x \<Rightarrow> push_metric metrics metricName x | _ \<Rightarrow> Inr metrics) of
             Inl e \<Rightarrow> Inl e
           | Inr metrics' \<Rightarrow> collect_metrics attrs metrics' rest))"

text \<open>Lines 190 to 216, the loop over the events.\<close>

fun scan_events ::
  "string list \<Rightarrow> real list plain_object \<Rightarrow> RUMEvent list \<Rightarrow> js_error + real list plain_object" where
  "scan_events metricNames metrics [] = Inr metrics"
| "scan_events metricNames metrics (event # events) =
     (case (case event_attributes event of
              None \<Rightarrow> Inr metrics
            | Some attrs \<Rightarrow> collect_metrics attrs metrics metricNames) of
        Inl e \<Rightarrow> Inl e
      | Inr metrics' \<Rightarrow> scan_events metricNames metrics' events)"

text \<open>
  Lines 224 to 234. \<^verbatim>\<open>Math.min(...values)\<close> and \<^verbatim>\<open>Math.max(...values)\<close> are only called
  on a series with a first element. The arithmetic is exact here; the code rounds, may
  overflow to an infinity, and the spread of a very long series raises a \<^verbatim>\<open>RangeError\<close>.
\<close>

definition summarize :: "real list \<Rightarrow> summary" where
  "summarize values =
     (case values of
        [] \<Rightarrow> \<lparr>avg = 0, min_val = 0, max_val = 0, count = 0\<rparr>
      | x # xs \<Rightarrow>
          \<lparr>avg = foldl (+) 0 values / real (length values),
           min_val = foldl min x xs,
           max_val = foldl max x xs,
           count = length values\<rparr>)"

text \<open>Lines 219 to 241: \<^verbatim>\<open>Object.entries(metrics).reduce(...)\<close>.\<close>

definition compute_results :: "real list plain_object \<Rightarrow> summary plain_object" where
  "compute_results metrics =
     foldl (\<lambda>acc (name, values). assign acc name (summarize values)) empty_object (entries metrics)"

definition page_performance ::
  "string list \<Rightarrow> RUMEvent list \<Rightarrow> js_error + (string \<times> summary) list" where
  "page_performance metricNames events =
     (case scan_events metricNames (init_metrics metricNames) events of
        Inl e \<Rightarrow> Inl e
      | Inr metrics \<Rightarrow> Inr (entries (compute_results metrics)))"

definition get_rum_page_performance ::
  "RUMApi \<Rightarrow> string \<Rightarrow> int \<Rightarrow> int \<Rightarrow> string list \<Rightarrow> js_error + text_content" where
  "get_rum_page_performance apiInstance query from to metricNames =
     (case listRUMEvents apiInstance (page_performance_request query from to) of
        Inl e \<Rightarrow> Inl e
      | Inr response \<Rightarrow>
          (case data response of
             None \<Rightarrow> Inl (Error ''No RUM events data returned'')
           | Some events \<Rightarrow>
               (case page_performance metricNames events of
                  Inl e \<Rightarrow> Inl e
                | Inr results \<Rightarrow>
                    Inr \<lparr>label = ''Page performance metrics: '', json = PerformanceResults results\<rparr>)))"

section \<open>Notions the statements are written with\<close>

text \<open>The attribute dictionaries of the events that pass the test of line 121.\<close>

definition usable_attributes :: "RUMEvent list \<Rightarrow> (string \<times> jsval) list list" where
  "usable_attributes events = List.map_filter event_attributes events"





text \<open>The session set of a group in the map \<^verbatim>\<open>sessions\<close>; empty while the group has none.\<close>

definition set_of_group :: "(string \<times> jsval list) list \<Rightarrow> string \<Rightarrow> jsval list" where
  "set_of_group sessions g = (case map_of sessions g of None \<Rightarrow> [] | Some s \<Rightarrow> s)"


definition added_ids :: "(string \<times> jsval) list \<Rightarrow> jsval list \<Rightarrow> jsval list" where
  "added_ids attrs s = (if truthy (session_id attrs) then set_add s (session_id attrs) else s)"

text \<open>
  The series the scan is expected to build for a name: for every event with attributes,
  in order, and for every occurrence of the name among the requested names, the value at
  the path when it is a number, and nothing otherwise.
\<close>

definition numeric_sample :: "js_error + jsval \<Rightarrow> real list" where
  "numeric_sample r = (case r of Inr (JNum x) \<Rightarrow> [x] | _ \<Rightarrow> [])"

definition samples_of :: "string list \<Rightarrow> string \<Rightarrow> (string \<times> jsval) list \<Rightarrow> real list" where
  "samples_of metricNames name attrs =
     concat (map (\<lambda>metricName.
        if metricName = name then numeric_sample (reduce_path (JObj attrs) (split_dot metricName))
        else []) metricNames)"

definition expected_series :: "string list \<Rightarrow> RUMEvent list \<Rightarrow> string \<Rightarrow> real list" where
  "expected_series metricNames events name =
     concat (map (samples_of metricNames name) (usable_attributes events))"

text \<open>Events for the examples: one with the given attributes, and a visit from a country
  within a session.\<close>

definition sample_event :: "(string \<times> jsval) list \<Rightarrow> RUMEvent" where
  "sample_event attrs =
     \<lparr>RUMEvent.attributes = Some \<lparr>RUMEventAttributes.attributes = Some attrs\<rparr>\<rparr>"

definition visit :: "string \<Rightarrow> jsval \<Rightarrow> RUMEvent" where
  "visit country sid =
     sample_event [(''geo'', JObj [(''country'', JStr country)]), (''session'', JObj [(''id'', sid)])]"

definition view_event :: "jsval \<Rightarrow> RUMEvent" where
  "view_event load_time = sample_event [(''view'', JObj [(''load_time'', load_time)])]"

text \<open>Two clients for the examples: one that rejects every request with an error that
  names the filter it was sent, and one that answers every request with the same data.\<close>

definition api_rejecting_with_filter :: RUMApi where
  "api_rejecting_with_filter =
     \<lparr>getRUMApplications = Inr \<lparr>data = None\<rparr>,
      listRUMEvents = (\<lambda>request.
        Inl (Error (case filterQuery request of
                      None \<Rightarrow> ''filterQuery: undefined''
                    | Some q \<Rightarrow> q)))\<rparr>"

definition api_always :: "RUMEvent list option \<Rightarrow> RUMApi" where
  "api_always d =
     \<lparr>getRUMApplications = Inr \<lparr>data = None\<rparr>, listRUMEvents = (\<lambda>request. Inr \<lparr>data = d\<rparr>)\<rparr>"

section \<open>Properties of the two resolvers\<close>

lemma truthy_not_nullish: "truthy v \<Longrightarrow> \<not> is_nullish v"
  by (cases v) auto

lemma get_prop_truthy: "truthy v \<Longrightarrow> get_prop v key = Inr (get_member v key)"
  by (simp add: get_prop_def truthy_not_nullish)

lemma reduce_path_undefined: "reduce_path JUndefined parts = Inr JUndefined"
  by (induction parts) auto

lemma reduce_path_falsy:
  "\<not> truthy acc \<Longrightarrow> reduce_path acc (part # parts) = Inr JUndefined"
  by (simp add: reduce_path_undefined)

lemma reduce_path_truthy:
  "truthy acc \<Longrightarrow> reduce_path acc (part # parts) = reduce_path (get_member acc part) parts"
  by (simp add: get_prop_truthy)

text \<open>On the members represented here the reducer never throws: it only indexes a truthy
  accumulator. (In the code, reading an inherited accessor can throw.)\<close>

lemma reduce_path_total: "\<exists>v. reduce_path acc parts = Inr v"
proof (induction parts arbitrary: acc)
  case Nil
  show ?case by simp
next
  case (Cons part parts)
  show ?case
  proof (cases "truthy acc")
    case True
    then show ?thesis using Cons.IH [of "get_member acc part"]
      by (simp add: reduce_path_truthy del: reduce_path.simps)
  next
    case False
    then show ?thesis by (simp add: reduce_path_falsy del: reduce_path.simps)
  qed
qed

lemma getValueByPath_drop: "getValueByPath obj path index = resolve_from obj (drop index path)"
proof (induction obj path index rule: getValueByPath.induct)
  case (1 obj path index)
  show ?case
  proof (cases "index \<ge> length path")
    case True
    then show ?thesis by (simp add: getValueByPath.simps [of obj path index])
  next
    case False
    then have d: "drop index path = path ! index # drop (index + 1) path"
      by (simp add: Cons_nth_drop_Suc)
    show ?thesis
    proof (cases "get_prop obj (path ! index)")
      case (Inl e)
      with False d show ?thesis by (simp add: getValueByPath.simps [of obj path index])
    next
      case (Inr member)
      show ?thesis
      proof (cases "member = JUndefined")
        case True
        with False d Inr show ?thesis by (simp add: getValueByPath.simps [of obj path index])
      next
        case neq: False
        have "getValueByPath member path (index + 1) = resolve_from member (drop (index + 1) path)"
          using "1.IH" [OF False refl Inr neq] .
        with False d Inr neq show ?thesis
          by (simp add: getValueByPath.simps [of obj path index])
      qed
    qed
  qed
qed

lemma getValueByPath_resolve: "getValueByPath obj path 0 = resolve_from obj path"
  by (simp add: getValueByPath_drop)

text \<open>
  Claim C1 says that \<open>getValueByPath\<close> never throws, and that an intermediate segment
  holding a non-map value, \<^verbatim>\<open>null\<close> included, gives \<open>found = False\<close>. The guard of
  line 292 compares the member with \<^verbatim>\<open>undefined\<close> only, so \<^verbatim>\<open>null\<close> passes it and the
  next call indexes \<^verbatim>\<open>null\<close>: for the attributes \<^verbatim>\<open>{a: null}\<close> and the path
  \<^verbatim>\<open>['a', 'b']\<close> the resolver throws a \<^verbatim>\<open>TypeError\<close>.
\<close>

theorem getValueByPath_null_intermediate_throws:
  "getValueByPath (JObj [(''a'', JNull)]) [''a'', ''b''] 0 = Inl TypeError"
  by (simp add: getValueByPath_resolve get_prop_def)

text \<open>
  Every other intermediate value is tolerated: when the resolver throws, some proper
  prefix of the path has led to \<^verbatim>\<open>null\<close>.
\<close>

lemma resolve_from_not_null:
  "obj \<noteq> JNull \<Longrightarrow> obj \<noteq> JUndefined \<Longrightarrow> resolve_from obj path = Inl e \<Longrightarrow>
     \<exists>k<length path. resolve_from obj (take k path) = Inr \<lparr>value = JNull, found = True\<rparr>"
proof (induction path arbitrary: obj)
  case Nil
  then show ?case by simp
next
  case (Cons key keys)
  let ?m = "get_member obj key"
  have gp: "get_prop obj key = Inr ?m"
    using Cons.prems(1,2) by (cases obj) (simp_all add: get_prop_def)
  have nu: "?m \<noteq> JUndefined"
    using Cons.prems(3) gp by (auto split: if_splits)
  have res: "\<And>ks. resolve_from obj (key # ks) = resolve_from ?m ks"
    using gp nu by simp
  show ?case
  proof (cases "?m = JNull")
    case True
    have "resolve_from obj (take 1 (key # keys)) = Inr \<lparr>value = JNull, found = True\<rparr>"
      using res [of "[]"] True by simp
    moreover have "keys \<noteq> []"
      using Cons.prems(3) res [of keys] True by (cases keys) auto
    ultimately show ?thesis
      by (intro exI [of _ 1]) simp
  next
    case False
    from Cons.prems(3) res have "resolve_from ?m keys = Inl e" by simp
    from Cons.IH [OF False nu this] obtain k where
      k: "k < length keys" "resolve_from ?m (take k keys) = Inr \<lparr>value = JNull, found = True\<rparr>"
      by blast
    then show ?thesis
      using res by (intro exI [of _ "Suc k"]) simp
  qed
qed

lemma getValueByPath_throws_only_after_null:
  "getValueByPath (JObj attrs) path 0 = Inl e \<Longrightarrow>
     \<exists>k<length path.
        getValueByPath (JObj attrs) (take k path) 0 = Inr \<lparr>value = JNull, found = True\<rparr>"
  using resolve_from_not_null [of "JObj attrs" path e] by (simp add: getValueByPath_resolve)

text \<open>
  Claim C2 says that the reducer of \<open>get_rum_page_performance\<close> yields a number exactly
  when \<open>getValueByPath\<close> finds that number. It fails where an intermediate value is falsy
  and still has the member asked for: for \<^verbatim>\<open>{a: ""}\<close> and the path \<^verbatim>\<open>a.length\<close> the
  reducer gives up at the empty string and yields \<^verbatim>\<open>undefined\<close>, while the resolver goes
  on and finds its length, the number 0.
\<close>

theorem reduce_path_differs_on_empty_string:
  "reduce_path (JObj [(''a'', JStr [])]) [''a'', ''length''] = Inr JUndefined \<and>
   getValueByPath (JObj [(''a'', JStr [])]) [''a'', ''length''] 0
     = Inr \<lparr>value = JNum 0, found = True\<rparr>"
  by (simp add: getValueByPath_resolve get_prop_def)

lemma reduce_resolve:
  "reduce_path obj path = Inr (JNum n) \<longleftrightarrow>
     resolve_from obj path = Inr \<lparr>value = JNum n, found = True\<rparr> \<and>
     (\<forall>k<length path. \<forall>r. resolve_from obj (take k path) = Inr r \<longrightarrow> truthy (value r))"
proof (induction path arbitrary: obj)
  case Nil
  show ?case by auto
next
  case (Cons key keys)
  show ?case
  proof (cases "truthy obj")
    case False
    have "resolve_from obj (take 0 (key # keys)) = Inr \<lparr>value = obj, found = True\<rparr>"
      by simp
    with False have
      "\<not> (\<forall>k<length (key # keys). \<forall>r. resolve_from obj (take k (key # keys)) = Inr r
            \<longrightarrow> truthy (value r))"
      by (metis length_greater_0_conv list.distinct(1) resolution.select_convs(1))
    with False show ?thesis by (simp add: reduce_path_falsy del: reduce_path.simps)
  next
    case True
    let ?m = "get_member obj key"
    have red: "reduce_path obj (key # keys) = reduce_path ?m keys"
      using True by (rule reduce_path_truthy)
    have gp: "get_prop obj key = Inr ?m"
      using True by (rule get_prop_truthy)
    show ?thesis
    proof (cases "?m = JUndefined")
      case u: True
      have "resolve_from obj (key # keys) = Inr \<lparr>value = JNull, found = False\<rparr>"
        using gp u by simp
      then show ?thesis
        using red u by (simp add: reduce_path_undefined del: reduce_path.simps)
    next
      case nu: False
      have res: "\<And>ks. resolve_from obj (key # ks) = resolve_from ?m ks"
        using gp nu by simp
      have "(\<forall>k<length (key # keys). \<forall>r. resolve_from obj (take k (key # keys)) = Inr r
               \<longrightarrow> truthy (value r))
          \<longleftrightarrow> (\<forall>k<length keys. \<forall>r. resolve_from ?m (take k keys) = Inr r
               \<longrightarrow> truthy (value r))"
        (is "?A \<longleftrightarrow> ?B")
      proof
        assume a: ?A
        show ?B
        proof (intro allI impI)
          fix k r
          assume "k < length keys" "resolve_from ?m (take k keys) = Inr r"
          then have "Suc k < length (key # keys)"
            "resolve_from obj (take (Suc k) (key # keys)) = Inr r"
            using res by simp_all
          with a show "truthy (value r)" by blast
        qed
      next
        assume b: ?B
        show ?A
        proof (intro allI impI)
          fix k r
          assume k: "k < length (key # keys)"
            and r: "resolve_from obj (take k (key # keys)) = Inr r"
          show "truthy (value r)"
          proof (cases k)
            case 0
            with r True show ?thesis by auto
          next
            case (Suc j)
            with k r res have "j < length keys" "resolve_from ?m (take j keys) = Inr r"
              by simp_all
            with b show ?thesis by blast
          qed
        qed
      qed
      then show ?thesis
        using Cons.IH [of ?m] red res by (simp del: reduce_path.simps resolve_from.simps)
    qed
  qed
qed

text \<open>
  Claim C2 as amended: the reducer yields the number \<open>n\<close> exactly when
  \<open>getValueByPath\<close> finds \<open>n\<close> and the value reached after every proper prefix of the
  path (the root among them) is truthy.
\<close>

theorem reduce_path_number_iff:
  "reduce_path obj path = Inr (JNum n) \<longleftrightarrow>
     getValueByPath obj path 0 = Inr \<lparr>value = JNum n, found = True\<rparr> \<and>
     (\<forall>k<length path. \<forall>r. getValueByPath obj (take k path) 0 = Inr r \<longrightarrow> truthy (value r))"
  by (simp only: getValueByPath_resolve reduce_resolve)

theorem reduce_path_number_iff_witness:
  "getValueByPath (JObj [(''view'', JObj [(''load_time'', JNum 100)])]) [''view'', ''load_time''] 0
     = Inr \<lparr>value = JNum 100, found = True\<rparr> \<and>
   reduce_path (JObj [(''view'', JObj [(''load_time'', JNum 100)])]) [''view'', ''load_time'']
     = Inr (JNum 100)"
proof -
  let ?o = "JObj [(''view'', JObj [(''load_time'', JNum 100)])]"
  let ?p = "[''view'', ''load_time'']"
  have a: "getValueByPath ?o ?p 0 = Inr \<lparr>value = JNum 100, found = True\<rparr>"
    by (simp add: getValueByPath_resolve get_prop_def)
  have b: "\<forall>k<length ?p. \<forall>r. getValueByPath ?o (take k ?p) 0 = Inr r \<longrightarrow> truthy (value r)"
    by (auto simp add: getValueByPath_resolve get_prop_def less_Suc_eq)
  from a b reduce_path_number_iff [of ?o ?p 100] show ?thesis by blast
qed

section \<open>Properties of the grouped session count\<close>

lemma map_of_map_set: "map_of (map_set m k v) = (map_of m)(k \<mapsto> v)"
  by (induction m) auto

lemma keys_map_set: "fst ` set (map_set m k v) = insert k (fst ` set m)"
proof -
  have "dom (map_of (map_set m k v)) = insert k (dom (map_of m))"
    by (simp add: map_of_map_set)
  then show ?thesis by (simp add: dom_map_of_conv_image_fst)
qed

lemma distinct_map_set: "distinct (map fst m) \<Longrightarrow> distinct (map fst (map_set m k v))"
proof (induction m)
  case Nil
  show ?case by simp
next
  case (Cons p m)
  obtain k' v' where p: "p = (k', v')" by (cases p)
  show ?case
  proof (cases "k' = k")
    case True
    with Cons.prems p show ?thesis by simp
  next
    case False
    with Cons p show ?thesis by (simp add: keys_map_set)
  qed
qed

lemma map_set_twice: "map_set (map_set m k v) k w = map_set m k w"
  by (induction m) auto

lemma map_set_same: "map_of m k = Some v \<Longrightarrow> map_set m k v = m"
  by (induction m) (auto split: if_splits)




lemma count_event_Inl:
  "event_attributes event = Some attrs \<Longrightarrow> groupValue fmt groupBy attrs = Inl e \<Longrightarrow>
     count_event fmt groupBy sessions event = Inl e"
  by (simp add: count_event_def)

lemma count_event_Inr:
  assumes "event_attributes event = Some attrs" and "groupValue fmt groupBy attrs = Inr g"
  shows "count_event fmt groupBy sessions event
           = Inr (map_set sessions g (added_ids attrs (set_of_group sessions g)))"
proof (cases "map_of sessions g")
  case None
  then show ?thesis using assms
    by (simp add: count_event_def map_has_def set_of_group_def added_ids_def
        map_of_map_set map_set_twice)
next
  case (Some s)
  then show ?thesis using assms
    by (simp add: count_event_def map_has_def set_of_group_def added_ids_def map_set_same)
qed

lemma usable_attributes_Cons:
  "usable_attributes (event # events) =
     (case event_attributes event of
        None \<Rightarrow> usable_attributes events
      | Some attrs \<Rightarrow> attrs # usable_attributes events)"
  unfolding usable_attributes_def by simp

lemma usable_attributes_Nil: "usable_attributes [] = []"
  by (simp add: usable_attributes_def)

lemma set_of_group_map_set:
  "set_of_group (map_set m g0 s) g = (if g = g0 then s else set_of_group m g)"
  by (simp add: set_of_group_def map_of_map_set)




























lemma falsy_values:
  "\<not> truthy v \<longleftrightarrow> v \<in> {JUndefined, JNull, JBool False, JNum 0, JStr []}"
  by (cases v) auto

text \<open>
  Claim C10: the test of line 142 is truthiness. An event whose \<^verbatim>\<open>session?.id\<close> is falsy
  (by \<open>falsy_values\<close>: \<^verbatim>\<open>undefined\<close>, \<^verbatim>\<open>null\<close>, \<^verbatim>\<open>false\<close>, 0 or the empty string)
  leaves the session set of every group as it was, so no count grows.
\<close>

theorem falsy_session_id_not_added:
  assumes "event_attributes event = Some attrs"
    and "\<not> truthy (session_id attrs)"
    and "count_event fmt groupBy sessions event = Inr sessions'"
  shows "\<forall>g. set_of_group sessions' g = set_of_group sessions g"
proof (cases "groupValue fmt groupBy attrs")
  case (Inl e)
  with assms show ?thesis by (simp add: count_event_Inl)
next
  case (Inr g0)
  with assms have "sessions' = map_set sessions g0 (set_of_group sessions g0)"
    by (simp add: count_event_Inr added_ids_def)
  then show ?thesis by (simp add: set_of_group_map_set)
qed

theorem falsy_session_id_not_added_witness:
  "count_event (\<lambda>x. []) ''geo.country'' [] (visit ''US'' (JStr [])) = Inr [(''US'', [])] \<and>
   set_of_group [(''US'', [])] ''US'' = set_of_group [] ''US''"
proof -
  have a: "event_attributes (visit ''US'' (JStr [])) =
     Some [(''geo'', JObj [(''country'', JStr ''US'')]), (''session'', JObj [(''id'', JStr [])])]"
    by code_simp
  have b: "\<not> truthy (session_id
     [(''geo'', JObj [(''country'', JStr ''US'')]), (''session'', JObj [(''id'', JStr [])])])"
    by code_simp
  have c: "count_event (\<lambda>x. []) ''geo.country'' [] (visit ''US'' (JStr [])) = Inr [(''US'', [])]"
    by code_simp
  from falsy_session_id_not_added [OF a b c] c show ?thesis by blast
qed



section \<open>Properties of the page performance summary\<close>

lemma read_assign: "read (assign obj name v) name' = (if name' = name then Some v else read obj name')"
  by (auto simp add: read_def assign_def map_of_map_set)

lemma read_empty_object: "read empty_object name = None"
  by (simp add: read_def empty_object_def)

lemma read_foldl_assign:
  "read (foldl (\<lambda>acc name. assign acc name []) obj names) name =
     (if name \<in> set names then Some [] else read obj name)"
  by (induction names arbitrary: obj) (auto simp add: read_assign)

lemma read_init_metrics:
  "read (init_metrics metricNames) name = (if name \<in> set metricNames then Some [] else None)"
  by (simp add: init_metrics_def read_foldl_assign read_empty_object)

lemma samples_of_Nil: "samples_of [] name attrs = []"
  by (simp add: samples_of_def)

lemma samples_of_Cons:
  "samples_of (metricName # rest) name attrs =
     (if metricName = name then numeric_sample (reduce_path (JObj attrs) (split_dot metricName))
      else []) @ samples_of rest name attrs"
  by (simp add: samples_of_def)

lemma collect_metrics_read:
  "(\<And>n. n \<in> set rest \<Longrightarrow> read metrics n \<noteq> None) \<Longrightarrow>
     \<exists>metrics'. collect_metrics attrs metrics rest = Inr metrics' \<and>
       (\<forall>n. read metrics' n = map_option (\<lambda>s. s @ samples_of rest n attrs) (read metrics n))"
proof (induction rest arbitrary: metrics)
  case Nil
  show ?case by (simp add: samples_of_Nil option.map_ident)
next
  case (Cons metricName rest)
  obtain v where v: "reduce_path (JObj attrs) (split_dot metricName) = Inr v"
    using reduce_path_total by blast
  from Cons.prems obtain series where series: "read metrics metricName = Some series"
    by fastforce
  define metrics1 where
    "metrics1 = (case v of JNum x \<Rightarrow> assign metrics metricName (series @ [x]) | _ \<Rightarrow> metrics)"
  have step: "(case v of JNum x \<Rightarrow> push_metric metrics metricName x | _ \<Rightarrow> Inr metrics)
      = Inr metrics1"
    using series by (cases v) (simp_all add: metrics1_def push_metric_def)
  have read1: "read metrics1 n
      = map_option (\<lambda>s. s @ (if metricName = n
           then numeric_sample (reduce_path (JObj attrs) (split_dot metricName)) else []))
          (read metrics n)"
    for n
    using series unfolding v
    by (cases v) (auto simp add: metrics1_def read_assign numeric_sample_def option.map_ident)
  have "\<And>n. n \<in> set rest \<Longrightarrow> read metrics1 n \<noteq> None"
    using Cons.prems by (simp add: read1)
  from Cons.IH [OF this] obtain metrics' where
    run: "collect_metrics attrs metrics1 rest = Inr metrics'"
    and rd: "\<And>n. read metrics' n = map_option (\<lambda>s. s @ samples_of rest n attrs) (read metrics1 n)"
    by blast
  have "collect_metrics attrs metrics (metricName # rest) = Inr metrics'"
    using v step run by simp
  moreover have "read metrics' n
      = map_option (\<lambda>s. s @ samples_of (metricName # rest) n attrs) (read metrics n)" for n
    by (simp add: rd read1 samples_of_Cons option.map_comp comp_def)
  ultimately show ?case by blast
qed

lemma expected_series_Nil: "expected_series metricNames [] name = []"
  by (simp add: expected_series_def usable_attributes_Nil)

lemma expected_series_Cons:
  "expected_series metricNames (event # events) name =
     (case event_attributes event of
        None \<Rightarrow> expected_series metricNames events name
      | Some attrs \<Rightarrow> samples_of metricNames name attrs @ expected_series metricNames events name)"
  by (simp add: expected_series_def usable_attributes_Cons split: option.splits)

lemma scan_events_read:
  "(\<And>n. n \<in> set metricNames \<Longrightarrow> read metrics n \<noteq> None) \<Longrightarrow>
     \<exists>metrics'. scan_events metricNames metrics events = Inr metrics' \<and>
       (\<forall>n. read metrics' n
          = map_option (\<lambda>s. s @ expected_series metricNames events n) (read metrics n))"
proof (induction events arbitrary: metrics)
  case Nil
  show ?case by (simp add: expected_series_Nil option.map_ident)
next
  case (Cons event events)
  show ?case
  proof (cases "event_attributes event")
    case None
    from Cons.IH [OF Cons.prems] None show ?thesis
      by (simp add: expected_series_Cons)
  next
    case (Some attrs)
    from collect_metrics_read [OF Cons.prems] obtain metrics1 where
      c: "collect_metrics attrs metrics metricNames = Inr metrics1"
      and rd1: "\<And>n. read metrics1 n
          = map_option (\<lambda>s. s @ samples_of metricNames n attrs) (read metrics n)"
      by blast
    have "\<And>n. n \<in> set metricNames \<Longrightarrow> read metrics1 n \<noteq> None"
      using Cons.prems by (simp add: rd1)
    from Cons.IH [OF this] obtain metrics' where
      run: "scan_events metricNames metrics1 events = Inr metrics'"
      and rd: "\<And>n. read metrics' n
          = map_option (\<lambda>s. s @ expected_series metricNames events n) (read metrics1 n)"
      by blast
    have "scan_events metricNames metrics (event # events) = Inr metrics'"
      using Some c run by simp
    moreover have "read metrics' n
        = map_option (\<lambda>s. s @ expected_series metricNames (event # events) n) (read metrics n)"
      for n
      by (simp add: rd rd1 expected_series_Cons Some option.map_comp comp_def)
    ultimately show ?thesis by blast
  qed
qed

lemma scan_events_init:
  "\<exists>metrics. scan_events metricNames (init_metrics metricNames) events = Inr metrics \<and>
     (\<forall>n. read metrics n
        = (if n \<in> set metricNames then Some (expected_series metricNames events n) else None))"
proof -
  have "\<And>n. n \<in> set metricNames \<Longrightarrow> read (init_metrics metricNames) n \<noteq> None"
    by (simp add: read_init_metrics)
  from scan_events_read [OF this, of metricNames events]
  show ?thesis by (auto simp add: read_init_metrics)
qed

lemma no_proto_key_assign:
  "''__proto__'' \<notin> fst ` set (members obj) \<Longrightarrow>
     ''__proto__'' \<notin> fst ` set (members (assign obj name v))"
  by (auto simp add: assign_def keys_map_set)

lemma distinct_keys_assign:
  "distinct (map fst (members obj)) \<Longrightarrow> distinct (map fst (members (assign obj name v)))"
  by (simp add: assign_def distinct_map_set)

lemma distinct_keys_init_metrics: "distinct (map fst (members (init_metrics metricNames)))"
proof -
  have "distinct (map fst (members obj)) \<Longrightarrow>
      distinct (map fst (members (foldl (\<lambda>acc name. assign acc name []) obj metricNames)))"
    for obj :: "real list plain_object"
    by (induction metricNames arbitrary: obj) (simp_all add: distinct_keys_assign)
  then show ?thesis by (simp add: init_metrics_def empty_object_def)
qed

lemma distinct_keys_collect_metrics:
  "collect_metrics attrs metrics rest = Inr metrics' \<Longrightarrow> distinct (map fst (members metrics)) \<Longrightarrow>
     distinct (map fst (members metrics'))"
proof (induction rest arbitrary: metrics)
  case Nil
  then show ?case by simp
next
  case (Cons metricName rest)
  from Cons.prems(1) obtain v metrics1 where
    step: "(case v of JNum x \<Rightarrow> push_metric metrics metricName x | _ \<Rightarrow> Inr metrics) = Inr metrics1"
    and run: "collect_metrics attrs metrics1 rest = Inr metrics'"
    by (auto split: sum.splits)
  have "distinct (map fst (members metrics1))"
    using step Cons.prems(2)
    by (cases v) (auto simp add: push_metric_def distinct_keys_assign split: option.splits)
  with Cons.IH [OF run] show ?case .
qed

lemma distinct_keys_scan_events:
  "scan_events metricNames metrics events = Inr metrics' \<Longrightarrow>
     distinct (map fst (members metrics)) \<Longrightarrow> distinct (map fst (members metrics'))"
proof (induction events arbitrary: metrics)
  case Nil
  then show ?case by simp
next
  case (Cons event events)
  from Cons.prems(1) obtain metrics1 where
    step: "(case event_attributes event of None \<Rightarrow> Inr metrics
            | Some attrs \<Rightarrow> collect_metrics attrs metrics metricNames) = Inr metrics1"
    and run: "scan_events metricNames metrics1 events = Inr metrics'"
    by (auto split: sum.splits)
  have "distinct (map fst (members metrics1))"
    using step Cons.prems(2) by (auto split: option.splits dest: distinct_keys_collect_metrics)
  with Cons.IH [OF run] show ?case .
qed

lemma read_summaries:
  "distinct (map fst kvs) \<Longrightarrow>
     read (foldl (\<lambda>acc (name, values). assign acc name (summarize values)) acc kvs) n =
       (case map_of kvs n of Some values \<Rightarrow> Some (summarize values) | None \<Rightarrow> read acc n)"
proof (induction kvs arbitrary: acc)
  case Nil
  show ?case by simp
next
  case (Cons kv kvs)
  obtain k series where kv: "kv = (k, series)" by (cases kv)
  from Cons.prems kv have fresh: "map_of kvs k = None" and d: "distinct (map fst kvs)"
    by (simp_all add: map_of_eq_None_iff)
  show ?case
    using Cons.IH [OF d, of "assign acc k (summarize series)"] fresh
    by (auto simp add: kv read_assign split: option.splits)
qed

lemma no_proto_key_summaries:
  "''__proto__'' \<notin> fst ` set (members acc) \<Longrightarrow>
     ''__proto__'' \<notin> fst ` set (members
        (foldl (\<lambda>acc (name, values). assign acc name (summarize values)) acc kvs))"
  by (induction kvs arbitrary: acc) (auto simp add: no_proto_key_assign split: prod.splits)

lemma map_of_entries:
  "''__proto__'' \<notin> fst ` set (members obj) \<Longrightarrow>
     map_of (entries obj) n = (if n = ''__proto__'' then None else read obj n)"
  by (auto simp add: entries_def read_def map_of_eq_None_iff)

lemma page_performance_results:
  "\<exists>results. page_performance metricNames events = Inr results \<and>
     (\<forall>name. map_of results name =
        (if name \<in> set metricNames \<and> name \<noteq> ''__proto__''
         then Some (summarize (expected_series metricNames events name)) else None))"
proof -
  obtain metrics where
    scan: "scan_events metricNames (init_metrics metricNames) events = Inr metrics"
    and rd: "\<And>n. read metrics n
        = (if n \<in> set metricNames then Some (expected_series metricNames events n) else None)"
    using scan_events_init by blast
  have d: "distinct (map fst (entries metrics))"
    using distinct_keys_scan_events [OF scan distinct_keys_init_metrics]
    by (simp add: entries_def)
  have np: "''__proto__'' \<notin> fst ` set (members (compute_results metrics))"
    unfolding compute_results_def
    by (rule no_proto_key_summaries) (simp add: empty_object_def)
  have "map_of (entries (compute_results metrics)) name =
        (if name \<in> set metricNames \<and> name \<noteq> ''__proto__''
         then Some (summarize (expected_series metricNames events name)) else None)" for name
  proof (cases "name = ''__proto__''")
    case True
    then show ?thesis by (simp add: map_of_entries [OF np])
  next
    case False
    have m: "map_of (entries metrics) name = read metrics name"
      using False by (simp add: entries_def read_def)
    have "map_of (entries (compute_results metrics)) name = read (compute_results metrics) name"
      using False by (simp add: map_of_entries [OF np])
    also have "\<dots> = map_option summarize (map_of (entries metrics) name)"
      unfolding compute_results_def
      by (simp add: read_summaries [OF d] read_empty_object split: option.splits)
    finally show ?thesis
      using False rd [of name] by (simp add: m)
  qed
  then show ?thesis by (simp add: page_performance_def scan)
qed

lemma foldl_plus: "foldl (+) a xs = a + sum_list xs" for a :: real
  by (induction xs arbitrary: a) simp_all

lemma foldl_min: "foldl min x xs = Min (set (x # xs))" for x :: real
proof (induction xs arbitrary: x)
  case Nil
  show ?case by simp
next
  case (Cons y ys)
  have "Min (set (x # y # ys)) = Min (set (min x y # ys))"
    by (cases "ys = []") (auto simp add: min.assoc)
  then show ?case using Cons.IH [of "min x y"] by simp
qed

lemma foldl_max: "foldl max x xs = Max (set (x # xs))" for x :: real
proof (induction xs arbitrary: x)
  case Nil
  show ?case by simp
next
  case (Cons y ys)
  have "Max (set (x # y # ys)) = Max (set (max x y # ys))"
    by (cases "ys = []") (auto simp add: max.assoc)
  then show ?case using Cons.IH [of "max x y"] by simp
qed

lemma summarize_empty: "summarize [] = \<lparr>avg = 0, min_val = 0, max_val = 0, count = 0\<rparr>"
  by (simp add: summarize_def)

lemma summarize_nonempty:
  "values \<noteq> [] \<Longrightarrow> summarize values =
     \<lparr>avg = sum_list values / real (length values), min_val = Min (set values),
      max_val = Max (set values), count = length values\<rparr>"
  by (cases "values") (simp_all add: summarize_def foldl_plus foldl_min foldl_max del: foldl_Cons)

text \<open>The three samples 100, 200 and 300 of one metric.\<close>

lemma page_performance_example:
  "page_performance [''view.load_time'']
     [view_event (JNum 100), view_event (JNum 200), view_event (JNum 300)]
     = Inr [(''view.load_time'', \<lparr>avg = 200, min_val = 100, max_val = 300, count = 3\<rparr>)]"
  by code_simp

lemma expected_series_numeric:
  "x \<in> set (expected_series metricNames events name) \<Longrightarrow>
     \<exists>attrs\<in>set (usable_attributes events).
        reduce_path (JObj attrs) (split_dot name) = Inr (JNum x)"
  by (auto simp add: expected_series_def samples_of_def numeric_sample_def
      split: if_splits sum.splits jsval.splits)

text \<open>
  Claim C7: a metric's series only ever holds values that were numbers at the resolved
  path. After the scan the series of a name is exactly \<open>expected_series\<close>, which takes
  a value only when the reducer yields a \<open>JNum\<close>: every element is the number some event
  has at the path, and strings (\<^verbatim>\<open>"42"\<close> too), booleans and absent values add nothing.
\<close>

theorem series_holds_only_numbers:
  assumes "scan_events metricNames (init_metrics metricNames) events = Inr metrics"
    and "read metrics name = Some series"
  shows "series = expected_series metricNames events name \<and>
    (\<forall>x\<in>set series. \<exists>attrs\<in>set (usable_attributes events).
        reduce_path (JObj attrs) (split_dot name) = Inr (JNum x))"
proof -
  from scan_events_init [of metricNames events] assms(1)
  have "read metrics name
      = (if name \<in> set metricNames then Some (expected_series metricNames events name) else None)"
    by auto
  with assms(2) have "series = expected_series metricNames events name"
    by (simp split: if_splits)
  then show ?thesis by (simp add: expected_series_numeric)
qed

theorem series_holds_only_numbers_witness:
  "scan_events [''view.load_time''] (init_metrics [''view.load_time''])
     [view_event (JStr ''42''), view_event (JNum 42), view_event (JBool True), sample_event []]
     = Inr \<lparr>members = [(''view.load_time'', [42])], prototype = None\<rparr> \<and>
   expected_series [''view.load_time'']
     [view_event (JStr ''42''), view_event (JNum 42), view_event (JBool True), sample_event []]
     ''view.load_time'' = [42]"
proof -
  let ?events =
    "[view_event (JStr ''42''), view_event (JNum 42), view_event (JBool True), sample_event []]"
  let ?metrics = "\<lparr>members = [(''view.load_time'', [42::real])], prototype = None\<rparr>"
  have scan: "scan_events [''view.load_time''] (init_metrics [''view.load_time'']) ?events
      = Inr ?metrics"
    by code_simp
  have rd: "read ?metrics ''view.load_time'' = Some [42]"
    by code_simp
  from series_holds_only_numbers [OF scan rd] scan show ?thesis by simp
qed

text \<open>
  Claim C6 says that every requested metric name is reported, with four zeros when its
  series is empty and with average, minimum, maximum and count otherwise. By
  \<open>page_performance_results\<close>, \<open>summarize_empty\<close> and \<open>summarize_nonempty\<close> this holds
  (with the exact numbers and the members represented here) for every requested name but
  \<^verbatim>\<open>__proto__\<close>: line 184 initialises the series with
  \<^verbatim>\<open>acc[name] = []\<close> on a plain object, which for that name sets the prototype and
  creates no member, so \<^verbatim>\<open>Object.entries\<close> at line 222 does not list it and the metric
  is missing from the report: requested next to \<^verbatim>\<open>view.load_time\<close> over no events, only
  the latter is reported.
\<close>

theorem page_performance_drops_proto_metric:
  "page_performance [''__proto__'', ''view.load_time''] []
     = Inr [(''view.load_time'', \<lparr>avg = 0, min_val = 0, max_val = 0, count = 0\<rparr>)]"
  by code_simp

section \<open>Properties of the handlers\<close>

text \<open>
  Claim C8: for the query \<^verbatim>\<open>*\<close>, \<open>get_rum_grouped_event_count\<close> calls \<^verbatim>\<open>listRUMEvents\<close>
  with no \<^verbatim>\<open>filterQuery\<close> and \<open>get_rum_page_performance\<close> calls it with exactly
  \<^verbatim>\<open>@type:view\<close>; for any other query the first sends the query as it is and the second
  sends it after \<^verbatim>\<open>@type:view \<close>; the filter \<^verbatim>\<open>*\<close> is never sent. The call is stated by
  what the handler does with the client: a rejection of that very request is the
  handler's failure, the answer to that request is the only thing of the client the
  outcome depends on, and what the client would answer to a request with the filter
  \<^verbatim>\<open>*\<close> never matters. In the example the client rejects every request with the filter
  it was sent, and the handlers fail with \<^verbatim>\<open>filterQuery: undefined\<close> and \<^verbatim>\<open>@type:view\<close>.
\<close>

theorem wildcard_query_filter:
  "(listRUMEvents api
      \<lparr>filterQuery = (if query = ''*'' then None else Some query),
       filterFrom = Some (from * 1000), filterTo = Some (to * 1000),
       sort_by = ''timestamp'', pageLimit = 2000\<rparr> = Inl e \<longrightarrow>
    get_rum_grouped_event_count fmt api query from to groupBy = Inl e) \<and>
   (listRUMEvents api
      \<lparr>filterQuery = Some (if query = ''*'' then ''@type:view'' else ''@type:view '' @ query),
       filterFrom = Some (from * 1000), filterTo = Some (to * 1000),
       sort_by = ''timestamp'', pageLimit = 2000\<rparr> = Inl e \<longrightarrow>
    get_rum_page_performance api query from to metricNames = Inl e) \<and>
   (\<forall>api'.
      listRUMEvents api'
        \<lparr>filterQuery = (if query = ''*'' then None else Some query),
         filterFrom = Some (from * 1000), filterTo = Some (to * 1000),
         sort_by = ''timestamp'', pageLimit = 2000\<rparr>
      = listRUMEvents api
        \<lparr>filterQuery = (if query = ''*'' then None else Some query),
         filterFrom = Some (from * 1000), filterTo = Some (to * 1000),
         sort_by = ''timestamp'', pageLimit = 2000\<rparr> \<longrightarrow>
      get_rum_grouped_event_count fmt api' query from to groupBy
        = get_rum_grouped_event_count fmt api query from to groupBy) \<and>
   (\<forall>api'.
      listRUMEvents api'
        \<lparr>filterQuery = Some (if query = ''*'' then ''@type:view'' else ''@type:view '' @ query),
         filterFrom = Some (from * 1000), filterTo = Some (to * 1000),
         sort_by = ''timestamp'', pageLimit = 2000\<rparr>
      = listRUMEvents api
        \<lparr>filterQuery = Some (if query = ''*'' then ''@type:view'' else ''@type:view '' @ query),
         filterFrom = Some (from * 1000), filterTo = Some (to * 1000),
         sort_by = ''timestamp'', pageLimit = 2000\<rparr> \<longrightarrow>
      get_rum_page_performance api' query from to metricNames
        = get_rum_page_performance api query from to metricNames) \<and>
   (\<forall>api'.
      (\<forall>request. filterQuery request \<noteq> Some ''*'' \<longrightarrow>
         listRUMEvents api' request = listRUMEvents api request) \<longrightarrow>
      get_rum_grouped_event_count fmt api' query from to groupBy
        = get_rum_grouped_event_count fmt api query from to groupBy \<and>
      get_rum_page_performance api' query from to metricNames
        = get_rum_page_performance api query from to metricNames)"
  by (auto simp add: grouped_event_count_request_def page_performance_request_def
      get_rum_grouped_event_count_def get_rum_page_performance_def)

theorem wildcard_query_filter_witness:
  "get_rum_grouped_event_count (\<lambda>x. []) api_rejecting_with_filter ''*'' 0 60 ''geo.country''
     = Inl (Error ''filterQuery: undefined'') \<and>
   get_rum_page_performance api_rejecting_with_filter ''*'' 0 60 [''view.load_time'']
     = Inl (Error ''@type:view'')"
proof -
  have g: "listRUMEvents api_rejecting_with_filter
      \<lparr>filterQuery = (if ''*'' = ''*'' then None else Some ''*''),
       filterFrom = Some (0 * 1000), filterTo = Some (60 * 1000),
       sort_by = ''timestamp'', pageLimit = 2000\<rparr> = Inl (Error ''filterQuery: undefined'')"
    by (simp add: api_rejecting_with_filter_def)
  have p: "listRUMEvents api_rejecting_with_filter
      \<lparr>filterQuery = Some (if ''*'' = ''*'' then ''@type:view'' else ''@type:view '' @ ''*''),
       filterFrom = Some (0 * 1000), filterTo = Some (60 * 1000),
       sort_by = ''timestamp'', pageLimit = 2000\<rparr> = Inl (Error ''@type:view'')"
    by (simp add: api_rejecting_with_filter_def)
  from g wildcard_query_filter [of api_rejecting_with_filter "''*''" 0 60 "Error ''filterQuery: undefined''"
      "\<lambda>x. []" "''geo.country''" "[''view.load_time'']"]
  have a: "get_rum_grouped_event_count (\<lambda>x. []) api_rejecting_with_filter ''*'' 0 60 ''geo.country''
     = Inl (Error ''filterQuery: undefined'')"
    by blast
  from p wildcard_query_filter [of api_rejecting_with_filter "''*''" 0 60 "Error ''@type:view''"
      "\<lambda>x. []" "''geo.country''" "[''view.load_time'']"]
  have b: "get_rum_page_performance api_rejecting_with_filter ''*'' 0 60 [''view.load_time'']
     = Inl (Error ''@type:view'')"
    by blast
  from a b show ?thesis by blast
qed

lemma no_data_raises:
  "getRUMApplications api = Inr \<lparr>data = None\<rparr> \<Longrightarrow>
     get_rum_applications api = Inl (Error ''No RUM applications data returned'')"
  "listRUMEvents api (events_request query from to limit) = Inr \<lparr>data = None\<rparr> \<Longrightarrow>
     get_rum_events api query from to limit = Inl (Error ''No RUM events data returned'')"
  "listRUMEvents api (grouped_event_count_request query from to) = Inr \<lparr>data = None\<rparr> \<Longrightarrow>
     get_rum_grouped_event_count fmt api query from to groupBy
       = Inl (Error ''No RUM events data returned'')"
  "listRUMEvents api (page_performance_request query from to) = Inr \<lparr>data = None\<rparr> \<Longrightarrow>
     get_rum_page_performance api query from to metricNames
       = Inl (Error ''No RUM events data returned'')"
  "listRUMEvents api (waterfall_request applicationName sessionId) = Inr \<lparr>data = None\<rparr> \<Longrightarrow>
     get_rum_page_waterfall api applicationName sessionId
       = Inl (Error ''No RUM events data returned'')"
  by (simp_all add: get_rum_applications_def get_rum_events_def get_rum_grouped_event_count_def
      get_rum_page_performance_def get_rum_page_waterfall_def)

lemma data_returned:
  "getRUMApplications api = Inr \<lparr>data = Some apps\<rparr> \<Longrightarrow>
     get_rum_applications api = Inr \<lparr>label = ''RUM applications: '', json = Applications apps\<rparr>"
  "listRUMEvents api (events_request query from to limit) = Inr \<lparr>data = Some events\<rparr> \<Longrightarrow>
     get_rum_events api query from to limit
       = Inr \<lparr>label = ''RUM events data: '', json = Events events\<rparr>"
  "listRUMEvents api (waterfall_request applicationName sessionId) = Inr \<lparr>data = Some events\<rparr> \<Longrightarrow>
     get_rum_page_waterfall api applicationName sessionId
       = Inr \<lparr>label = ''Waterfall data: '', json = Events events\<rparr>"
  "listRUMEvents api (page_performance_request query from to) = Inr \<lparr>data = Some events\<rparr> \<Longrightarrow>
     \<exists>results. get_rum_page_performance api query from to metricNames
       = Inr \<lparr>label = ''Page performance metrics: '', json = PerformanceResults results\<rparr>"
  "listRUMEvents api (grouped_event_count_request query from to) = Inr \<lparr>data = Some []\<rparr> \<Longrightarrow>
     get_rum_grouped_event_count fmt api query from to groupBy
       = Inr \<lparr>label = ''Session counts (grouped by '' @ groupBy @ ''): '', json = SessionCounts []\<rparr>"
proof -
  show "getRUMApplications api = Inr \<lparr>data = Some apps\<rparr> \<Longrightarrow>
     get_rum_applications api = Inr \<lparr>label = ''RUM applications: '', json = Applications apps\<rparr>"
    by (simp add: get_rum_applications_def)
  show "listRUMEvents api (events_request query from to limit) = Inr \<lparr>data = Some events\<rparr> \<Longrightarrow>
     get_rum_events api query from to limit
       = Inr \<lparr>label = ''RUM events data: '', json = Events events\<rparr>"
    by (simp add: get_rum_events_def)
  show "listRUMEvents api (waterfall_request applicationName sessionId) = Inr \<lparr>data = Some events\<rparr> \<Longrightarrow>
     get_rum_page_waterfall api applicationName sessionId
       = Inr \<lparr>label = ''Waterfall data: '', json = Events events\<rparr>"
    by (simp add: get_rum_page_waterfall_def)
  show "listRUMEvents api (page_performance_request query from to) = Inr \<lparr>data = Some events\<rparr> \<Longrightarrow>
     \<exists>results. get_rum_page_performance api query from to metricNames
       = Inr \<lparr>label = ''Page performance metrics: '', json = PerformanceResults results\<rparr>"
    using page_performance_results [of metricNames events]
    by (auto simp add: get_rum_page_performance_def)
  show "listRUMEvents api (grouped_event_count_request query from to) = Inr \<lparr>data = Some []\<rparr> \<Longrightarrow>
     get_rum_grouped_event_count fmt api query from to groupBy
       = Inr \<lparr>label = ''Session counts (grouped by '' @ groupBy @ ''): '', json = SessionCounts []\<rparr>"
    by (simp add: get_rum_grouped_event_count_def session_counts_def)
qed

text \<open>
  Claim C9 says that a handler raises exactly when the \<open>data\<close> of the response is null
  or absent, with the message of its operation, and that an empty list is a normal
  result. By \<open>no_data_raises\<close> and \<open>data_returned\<close> that is so for
  \<open>get_rum_applications\<close>, \<open>get_rum_events\<close> and \<open>get_rum_page_waterfall\<close>, and for
  \<open>get_rum_page_performance\<close> on the members and numbers represented here; an empty
  list is a normal result for all five.
  \<open>get_rum_grouped_event_count\<close> also raises on data that is there: an event whose
  attributes are \<^verbatim>\<open>{a: null}\<close>, grouped by \<^verbatim>\<open>a.b\<close>, makes \<open>getValueByPath\<close> throw.
\<close>

theorem grouped_event_count_throws_on_null:
  "get_rum_grouped_event_count fmt (api_always (Some [sample_event [(''a'', JNull)]])) ''*'' 0 60 ''a.b''
     = Inl TypeError"
  by (simp add: get_rum_grouped_event_count_def api_always_def session_counts_def count_event_def
      sample_event_def event_attributes_def groupValue_def getValueByPath_resolve get_prop_def)

end
